theory Spec2Isabelle
  imports Complex_Main "HOL-Library.Sublist"
begin


section \<open>Python values and built-ins used by the lazy dataset module\<close>

text \<open>
  Exceptions are values. Every \<^verbatim>\<open>raise\<close> of the source, and every exception a built-in
  raises on the inputs the source hands it, is a branch returning \<open>Inl\<close>.
\<close>

datatype error =
    StopIteration
  | ValueError
  | ZeroDivisionError
  | OverflowError
  | IndexError
  | KeyError
  | AssertionError

text \<open>
  \<^verbatim>\<open>sys.maxsize\<close> on a 64-bit CPython: the largest value the built-in \<^verbatim>\<open>len\<close> returns.
\<close>

definition sys_maxsize :: int where
  "sys_maxsize = 2 ^ 63 - 1"

text \<open>
  The built-in \<^verbatim>\<open>len(x)\<close>, given what \<^verbatim>\<open>x.__len__()\<close> did: an exception of the method
  propagates, a negative result is a \<^verbatim>\<open>ValueError\<close>, one above \<^verbatim>\<open>sys.maxsize\<close> an
  \<^verbatim>\<open>OverflowError\<close>.
\<close>

definition py_len :: "error + int \<Rightarrow> error + int" where
  "py_len r =
     (case r of
        Inl e \<Rightarrow> Inl e
      | Inr n \<Rightarrow>
          if n < 0 then Inl ValueError
          else if sys_maxsize < n then Inl OverflowError
          else Inr n)"

text \<open>
  \<^verbatim>\<open>len(range(start, stop, step))\<close>: \<^verbatim>\<open>range\<close> rejects a zero step, and the number of
  elements is computed as CPython does (one more than the truncated quotient of the
  distance less one, or zero when the range is empty).
\<close>

definition range_count :: "int \<Rightarrow> int \<Rightarrow> int \<Rightarrow> int" where
  "range_count lo hi st =
     (if 0 < st then (if lo < hi then (hi - lo - 1) div st + 1 else 0)
      else (if hi < lo then (lo - hi - 1) div (- st) + 1 else 0))"

definition len_range :: "int \<Rightarrow> int \<Rightarrow> int \<Rightarrow> error + int" where
  "len_range lo hi st =
     (if st = 0 then Inl ValueError
      else if sys_maxsize < range_count lo hi st then Inl OverflowError
      else Inr (range_count lo hi st))"

section \<open>Map datasets\<close>

text \<open>
  \<^verbatim>\<open>LazyMapDataset\<close> is an abstract class with two abstract methods. An object of it is
  the pair of what its \<^verbatim>\<open>__len__()\<close> does and what its \<^verbatim>\<open>__getitem__(index)\<close> does for
  an integer index; an element is \<open>None\<close> for Python's \<^verbatim>\<open>None\<close> (a missing element of a
  sparse dataset). Indexing by a \<^verbatim>\<open>slice\<close> object builds another dataset and is not an
  element access; it is outside this development.
\<close>

record 'a LazyMapDataset =
  len_method :: "error + int"
  getitem :: "int \<Rightarrow> error + 'a option"

subsection \<open>RangeLazyMapDataset\<close>

record RangeLazyMapDataset =
  start :: int
  stop :: int
  step :: int

text \<open>\<^verbatim>\<open>__init__(start, stop=None, step=1)\<close>: with no \<^verbatim>\<open>stop\<close> the range is \<open>0 .. start\<close>.\<close>

definition Range_init :: "int \<Rightarrow> int option \<Rightarrow> int \<Rightarrow> RangeLazyMapDataset" where
  "Range_init a b c =
     \<lparr> start = (case b of None \<Rightarrow> 0 | Some _ \<Rightarrow> a),
       stop = (case b of None \<Rightarrow> a | Some s \<Rightarrow> s),
       step = c \<rparr>"

text \<open>The cached property \<^verbatim>\<open>_length\<close> and \<^verbatim>\<open>__len__\<close>, which returns it.\<close>

definition Range_length :: "RangeLazyMapDataset \<Rightarrow> error + int" where
  "Range_length r = len_range (start r) (stop r) (step r)"

definition Range_len :: "RangeLazyMapDataset \<Rightarrow> error + int" where
  "Range_len r = Range_length r"

text \<open>
  \<^verbatim>\<open>__getitem__(index)\<close> for an integer index:
  \<^verbatim>\<open>self.start + (index % self._length) * self.step\<close>. Python's \<^verbatim>\<open>%\<close> raises on a zero
  divisor and otherwise takes the sign of the divisor, as \<open>mod\<close> on \<open>int\<close> does.
\<close>

definition Range_getitem :: "RangeLazyMapDataset \<Rightarrow> int \<Rightarrow> error + int" where
  "Range_getitem r index =
     (case Range_length r of
        Inl e \<Rightarrow> Inl e
      | Inr n \<Rightarrow>
          if n = 0 then Inl ZeroDivisionError
          else Inr (start r + (index mod n) * step r))"

definition Range_dataset :: "RangeLazyMapDataset \<Rightarrow> int LazyMapDataset" where
  "Range_dataset r =
     \<lparr> len_method = Range_len r,
       getitem = (\<lambda>index. case Range_getitem r index of Inl e \<Rightarrow> Inl e | Inr v \<Rightarrow> Inr (Some v)) \<rparr>"

subsection \<open>ShardLazyDataset\<close>

text \<open>
  \<^verbatim>\<open>sharding.even_split\<close> lives in another module; the shard keeps the two bounds it
  returned, so the constructor takes the function as a parameter. \<^verbatim>\<open>len(self._parent)\<close>
  is evaluated to call it, and may raise.
\<close>

record 'a ShardLazyDataset =
  sh_parent :: "'a LazyMapDataset"
  sh_start :: int
  sh_end :: int

definition Shard_init ::
  "'a LazyMapDataset \<Rightarrow> (int \<Rightarrow> 'o \<Rightarrow> int \<times> int) \<Rightarrow> 'o \<Rightarrow> error + 'a ShardLazyDataset" where
  "Shard_init p even_split shard_options =
     (case py_len (len_method p) of
        Inl e \<Rightarrow> Inl e
      | Inr n \<Rightarrow>
          Inr \<lparr> sh_parent = p,
                sh_start = fst (even_split n shard_options),
                sh_end = snd (even_split n shard_options) \<rparr>)"

definition Shard_len :: "'a ShardLazyDataset \<Rightarrow> error + int" where
  "Shard_len s = Inr (sh_end s - sh_start s)"

text \<open>
  \<^verbatim>\<open>__getitem__(index)\<close> for an integer index: \<^verbatim>\<open>len(self)\<close> is taken twice and
  \<^verbatim>\<open>len(self._parent)\<close> once, in this order; \<^verbatim>\<open>//\<close> and \<^verbatim>\<open>%\<close> raise on a zero divisor
  and round towards minus infinity, as \<open>div\<close> and \<open>mod\<close> on \<open>int\<close> do.
\<close>

definition Shard_getitem :: "'a ShardLazyDataset \<Rightarrow> int \<Rightarrow> error + 'a option" where
  "Shard_getitem s index =
     (case py_len (Shard_len s) of
        Inl e \<Rightarrow> Inl e
      | Inr n \<Rightarrow>
          if n = 0 then Inl ZeroDivisionError
          else
            let epoch = index div n;
                index_in_epoch = index mod n
            in (case py_len (len_method (sh_parent s)) of
                  Inl e \<Rightarrow> Inl e
                | Inr m \<Rightarrow> getitem (sh_parent s) (epoch * m + index_in_epoch + sh_start s)))"

definition Shard_dataset :: "'a ShardLazyDataset \<Rightarrow> 'a LazyMapDataset" where
  "Shard_dataset s = \<lparr> len_method = Shard_len s, getitem = Shard_getitem s \<rparr>"

section \<open>The thread-pool prefetch iterator over a map dataset\<close>

record ReadOptions =
  num_threads :: int
  prefetch_buffer_size :: int

text \<open>
  A future of \<^verbatim>\<open>executor.submit(dataset.__getitem__, i)\<close> holds what the call does: its
  \<^verbatim>\<open>result()\<close> returns the element or re-raises the call's exception. The dataset is a
  function of the index, so the future is the outcome of the call.
\<close>

type_synonym 'a future = "error + 'a option"

definition submit :: "'a LazyMapDataset \<Rightarrow> int \<Rightarrow> 'a future" where
  "submit ds i = getitem ds i"

text \<open>
  The iterator's attributes. \<open>buffer\<close> is \<open>None\<close> or the deque of futures, head first.
  \<open>executor\<close> is the pool's thread count and exists only when the buffer size is
  positive. \<open>reads\<close> is not an attribute: it logs every index handed to the dataset's
  \<^verbatim>\<open>__getitem__\<close>, directly or through \<^verbatim>\<open>submit\<close>, in the order of the calls.
\<close>

record 'a PrefetchLazyDatasetIterator =
  dataset :: "'a LazyMapDataset"
  dataset_length :: int
  next_index :: int
  buffer :: "'a future list option"
  buffer_size :: int
  allow_nones :: bool
  executor :: "int option"
  reads :: "int list"

text \<open>
  \<^verbatim>\<open>__init__\<close>: \<^verbatim>\<open>len(dataset)\<close> may raise, and \<^verbatim>\<open>ThreadPoolExecutor(n)\<close> raises
  \<^verbatim>\<open>ValueError\<close> for \<open>n \<le> 0\<close>.
\<close>

definition Prefetch_init ::
  "'a LazyMapDataset \<Rightarrow> ReadOptions \<Rightarrow> bool \<Rightarrow> error + 'a PrefetchLazyDatasetIterator" where
  "Prefetch_init ds read_options allow =
     (case py_len (len_method ds) of
        Inl e \<Rightarrow> Inl e
      | Inr n \<Rightarrow>
          if 0 < prefetch_buffer_size read_options \<and> num_threads read_options \<le> 0
          then Inl ValueError
          else Inr \<lparr> dataset = ds,
                     dataset_length = n,
                     next_index = 0,
                     buffer = None,
                     buffer_size = prefetch_buffer_size read_options,
                     allow_nones = allow,
                     executor = (if 0 < prefetch_buffer_size read_options
                                 then Some (num_threads read_options) else None),
                     reads = [] \<rparr>)"

text \<open>
  The buffered branch of \<^verbatim>\<open>__next__\<close>, up to \<^verbatim>\<open>element.result()\<close>: refill the buffer
  when it is \<^verbatim>\<open>None\<close> or empty with the futures of
  \<^verbatim>\<open>range(next_index, min(next_index + size, length))\<close>, pop the head (\<^verbatim>\<open>popleft\<close> of
  an empty deque raises \<^verbatim>\<open>IndexError\<close>), and submit index \<open>next_index + size\<close> when it
  is below the length.
\<close>

definition window :: "int \<Rightarrow> int \<Rightarrow> int \<Rightarrow> int list" where
  "window n b l = [n .. min (n + b) l - 1]"

definition fetch_buffered ::
  "'a PrefetchLazyDatasetIterator \<Rightarrow> (error + 'a option) \<times> 'a PrefetchLazyDatasetIterator" where
  "fetch_buffered it =
     (let n = next_index it; b = buffer_size it; l = dataset_length it;
          refill = (map (submit (dataset it)) (window n b l), reads it @ window n b l);
          (buf, log) = (case buffer it of
                          None \<Rightarrow> refill
                        | Some [] \<Rightarrow> refill
                        | Some (f # fs) \<Rightarrow> (f # fs, reads it))
      in case buf of
           [] \<Rightarrow> (Inl IndexError, it\<lparr>buffer := Some [], reads := log\<rparr>)
         | element # rest \<Rightarrow>
             if n + b < l
             then (element,
                   it\<lparr>buffer := Some (rest @ [submit (dataset it) (n + b)]),
                      reads := log @ [n + b]\<rparr>)
             else (element, it\<lparr>buffer := Some rest, reads := log\<rparr>))"

text \<open>The body of the loop between the test for the end and \<^verbatim>\<open>self._next_index += 1\<close>.\<close>

definition fetch ::
  "'a PrefetchLazyDatasetIterator \<Rightarrow> (error + 'a option) \<times> 'a PrefetchLazyDatasetIterator" where
  "fetch it =
     (if 0 < buffer_size it then fetch_buffered it
      else (getitem (dataset it) (next_index it), it\<lparr>reads := reads it @ [next_index it]\<rparr>))"

text \<open>
  \<^verbatim>\<open>__next__\<close>: the \<^verbatim>\<open>while True\<close> loop. It leaves with \<^verbatim>\<open>StopIteration\<close> when
  \<open>next_index\<close> equals the length, with the dataset's exception when the read raises
  (\<open>next_index\<close> is then not advanced), and with the element when it is not \<^verbatim>\<open>None\<close> or
  \<^verbatim>\<open>None\<close>s are allowed. The loop need not end for a \<open>next_index\<close> beyond the length,
  so the result is an option: \<open>None\<close> is a call that does not return.
\<close>

partial_function (option) Prefetch_next ::
  "'a PrefetchLazyDatasetIterator \<Rightarrow>
     ((error + 'a option) \<times> 'a PrefetchLazyDatasetIterator) option" where
  [code]: "Prefetch_next it =
     (if next_index it = dataset_length it then Some (Inl StopIteration, it)
      else
        (case fetch it of
           (Inl e, it1) \<Rightarrow> Some (Inl e, it1)
         | (Inr element, it1) \<Rightarrow>
             (let it2 = it1\<lparr>next_index := next_index it1 + 1\<rparr>
              in if allow_nones it2 \<or> element \<noteq> None then Some (Inr element, it2)
                 else Prefetch_next it2)))"

text \<open>
  The state is the dictionary \<^verbatim>\<open>{"next_index": n}\<close>, built anew by every
  \<^verbatim>\<open>get_state\<close>. \<^verbatim>\<open>set_state\<close> reads the key (\<^verbatim>\<open>KeyError\<close> when it is missing) and drops
  the buffer when the buffer size is positive.
\<close>

definition Prefetch_get_state :: "'a PrefetchLazyDatasetIterator \<Rightarrow> (string \<rightharpoonup> int)" where
  "Prefetch_get_state it = [''next_index'' \<mapsto> next_index it]"

definition Prefetch_set_state ::
  "'a PrefetchLazyDatasetIterator \<Rightarrow> (string \<rightharpoonup> int) \<Rightarrow> error + 'a PrefetchLazyDatasetIterator" where
  "Prefetch_set_state it state =
     (case state ''next_index'' of
        None \<Rightarrow> Inl KeyError
      | Some v \<Rightarrow>
          Inr (if 0 < buffer_size it then it\<lparr>next_index := v, buffer := None\<rparr>
               else it\<lparr>next_index := v\<rparr>))"

text \<open>
  Consuming an iterator as a \<^verbatim>\<open>for\<close> loop or \<^verbatim>\<open>list(it)\<close> does: \<^verbatim>\<open>next\<close> is called
  until it raises. The result is the elements delivered, the exception that ended the
  loop (\<^verbatim>\<open>StopIteration\<close> for a normal end) and the iterator as it was left.
\<close>

partial_function (option) consume ::
  "'a PrefetchLazyDatasetIterator \<Rightarrow>
     ('a option list \<times> error \<times> 'a PrefetchLazyDatasetIterator) option" where
  [code]: "consume it =
     (case Prefetch_next it of
        None \<Rightarrow> None
      | Some (Inl e, it1) \<Rightarrow> Some ([], e, it1)
      | Some (Inr element, it1) \<Rightarrow>
          Option.bind (consume it1) (\<lambda>(xs, e, it2). Some (element # xs, e, it2)))"

text \<open>Calling \<^verbatim>\<open>next\<close> \<open>k\<close> times, each call delivering an element.\<close>

fun take_elements ::
  "nat \<Rightarrow> 'a PrefetchLazyDatasetIterator \<Rightarrow>
     ('a option list \<times> 'a PrefetchLazyDatasetIterator) option" where
  "take_elements 0 it = Some ([], it)"
| "take_elements (Suc k) it =
     (case Prefetch_next it of
        Some (Inr element, it1) \<Rightarrow>
          (case take_elements k it1 of
             Some (xs, it2) \<Rightarrow> Some (element # xs, it2)
           | None \<Rightarrow> None)
      | _ \<Rightarrow> None)"

section \<open>Notions used to state and prove the properties of the iterator\<close>

text \<open>
  An iterator is in step when its position lies within the dataset and, in buffered mode,
  its buffer is either absent or holds exactly the futures of the window that starts at
  the position. A new iterator is in step, and so is one whose state was just set to a
  position within the dataset.
\<close>

definition in_sync :: "'a PrefetchLazyDatasetIterator \<Rightarrow> bool" where
  "in_sync it =
     (0 \<le> next_index it \<and> next_index it \<le> dataset_length it \<and>
      (if 0 < buffer_size it
       then buffer it = None \<or>
            buffer it = Some (map (submit (dataset it))
                               (window (next_index it) (buffer_size it) (dataset_length it)))
       else True))"

text \<open>The indices a successful pass through the loop body hands to the dataset.\<close>

definition fetched :: "'a PrefetchLazyDatasetIterator \<Rightarrow> int list" where
  "fetched it =
     (if 0 < buffer_size it
      then (if buffer it = None
            then window (next_index it) (buffer_size it + 1) (dataset_length it)
            else if next_index it + buffer_size it < dataset_length it
                 then [next_index it + buffer_size it] else [])
      else [next_index it])"

text \<open>
  The iterator after the loop body read its element (\<open>after_read\<close>, the state a raising
  read leaves behind) and after the position was advanced too (\<open>advance\<close>).
\<close>

definition after_read :: "'a PrefetchLazyDatasetIterator \<Rightarrow> 'a PrefetchLazyDatasetIterator" where
  "after_read it =
     it\<lparr>buffer := (if 0 < buffer_size it
                     then Some (map (submit (dataset it))
                            (window (next_index it + 1) (buffer_size it) (dataset_length it)))
                     else buffer it),
        reads := reads it @ fetched it\<rparr>"

definition advance :: "'a PrefetchLazyDatasetIterator \<Rightarrow> 'a PrefetchLazyDatasetIterator" where
  "advance it = (after_read it)\<lparr>next_index := next_index it + 1\<rparr>"

text \<open>
  The reference semantics: reading the dataset synchronously, index by index, from
  position \<open>n\<close> for \<open>d\<close> more elements. It gives the elements delivered (a \<open>None\<close> is
  kept only when \<open>None\<close>s are allowed) and the exception that ends the reading: the first
  one the dataset raises, or \<^verbatim>\<open>StopIteration\<close> at the end.
\<close>

fun deliver :: "'a LazyMapDataset \<Rightarrow> bool \<Rightarrow> int \<Rightarrow> nat \<Rightarrow> 'a option list \<times> error" where
  "deliver ds allow n 0 = ([], StopIteration)"
| "deliver ds allow n (Suc d) =
     (case getitem ds n of
        Inl e \<Rightarrow> ([], e)
      | Inr x \<Rightarrow>
          (if allow \<or> x \<noteq> None then x # fst (deliver ds allow (n + 1) d)
           else fst (deliver ds allow (n + 1) d),
           snd (deliver ds allow (n + 1) d)))"

definition remaining :: "'a PrefetchLazyDatasetIterator \<Rightarrow> 'a option list \<times> error" where
  "remaining it =
     deliver (dataset it) (allow_nones it) (next_index it)
       (nat (dataset_length it - next_index it))"

definition same_config ::
  "'a PrefetchLazyDatasetIterator \<Rightarrow> 'a PrefetchLazyDatasetIterator \<Rightarrow> bool" where
  "same_config it it' =
     (dataset it' = dataset it \<and> dataset_length it' = dataset_length it \<and>
      buffer_size it' = buffer_size it \<and> allow_nones it' = allow_nones it)"





text \<open>A sparse dataset of five elements, two of them missing, and read options.\<close>

definition sparse_example :: "int LazyMapDataset" where
  "sparse_example =
     \<lparr> len_method = Inr 5,
       getitem = (\<lambda>i. if i = 2 \<or> i = 3 then Inr None else Inr (Some (i * 10))) \<rparr>"

definition example_options :: "int \<Rightarrow> ReadOptions" where
  "example_options b = \<lparr> num_threads = 2, prefetch_buffer_size = b \<rparr>"

section \<open>Construction of the multi-process prefetch dataset\<close>

text \<open>
  The validation walks the graph of datasets through \<^verbatim>\<open>parents\<close> and asks of each node
  only whether it is a \<^verbatim>\<open>MultiprocessPrefetchLazyIterDataset\<close>. A node is therefore its
  class, as far as this test tells classes apart, and the tuple of its parents; a
  parent shared by two children is visited once per path, as the walk does.
\<close>

datatype node_class = MapDataset | IterDataset | MultiprocessPrefetch

datatype dataset_node = Dataset (node_class: node_class) (parents: "dataset_node list")

text \<open>\<^verbatim>\<open>MultiprocessingOptions\<close>: only \<^verbatim>\<open>num_workers\<close> is read here.\<close>

record MultiprocessingOptions =
  num_workers :: int

text \<open>
  The loop of \<^verbatim>\<open>_validate_parent_dataset\<close> on its work list: \<^verbatim>\<open>pop(0)\<close>, the
  \<^verbatim>\<open>isinstance\<close> test, \<^verbatim>\<open>extend(dataset.parents)\<close>.
\<close>

function validate_parent_dataset :: "dataset_node list \<Rightarrow> error + unit" where
  "validate_parent_dataset [] = Inr ()"
| "validate_parent_dataset (d # to_check) =
     (if node_class d = MultiprocessPrefetch then Inl ValueError
      else validate_parent_dataset (to_check @ parents d))"
  by pat_completeness auto
termination
proof (relation "measure (\<lambda>to_check. sum_list (map size to_check))")
  show "wf (measure (\<lambda>to_check. sum_list (map size to_check)))" by simp
next
  fix d :: dataset_node and to_check :: "dataset_node list"
  have "sum_list (map size ps) \<le> size_list size ps" for ps :: "dataset_node list"
    by (induction ps) auto
  then have "sum_list (map size (parents d)) < size d"
    by (cases d) (simp add: le_imp_less_Suc)
  then show "(to_check @ parents d, d # to_check)
      \<in> measure (\<lambda>to_check. sum_list (map size to_check))"
    by simp
qed

text \<open>
  \<^verbatim>\<open>__init__\<close>: the test of \<^verbatim>\<open>num_workers\<close>, then the base class stores the parent, then
  the validation starts from the parent. The new node and its options are returned.
\<close>

definition MultiprocessPrefetch_init ::
  "dataset_node \<Rightarrow> MultiprocessingOptions \<Rightarrow> error + dataset_node \<times> MultiprocessingOptions" where
  "MultiprocessPrefetch_init parent multiprocessing_options =
     (if num_workers multiprocessing_options < 1 then Inl ValueError
      else
        (case validate_parent_dataset [parent] of
           Inl e \<Rightarrow> Inl e
         | Inr _ \<Rightarrow> Inr (Dataset MultiprocessPrefetch [parent], multiprocessing_options)))"

text \<open>
  The claim's words: a graph contains a multi-process prefetch node when its root is one
  or one is reached through the parents, transitively.
\<close>

fun contains_multiprocess :: "dataset_node \<Rightarrow> bool" where
  "contains_multiprocess (Dataset c ps) =
     (c = MultiprocessPrefetch \<or> list_ex contains_multiprocess ps)"

section \<open>The single-bin streaming packer\<close>

text \<open>
  The source of the packing transformation (\<^verbatim>\<open>transformations/packing.py\<close>) is not among
  the files; only its test is. The packer is therefore modelled from section 4.E of the
  specification, and each definition below says which sentences it follows.
\<close>

text \<open>
  Modelled from the spec: the data of packing (the missing \<^verbatim>\<open>packing.py\<close>). An element maps
  feature names to integer sequences; the length structure maps feature names to target
  lengths; per feature, a bin or an output record holds the values, the segment ids
  (the 1-based index of the source sequence within the record, 0 for padding) and the
  positions (0-based within the source sequence, 0 for padding).
\<close>

type_synonym element = "(string \<times> int list) list"

type_synonym length_struct = "(string \<times> nat) list"

record packed_feature =
  pf_values :: "int list"
  pf_segment_ids :: "nat list"
  pf_positions :: "nat list"

type_synonym packed_record = "(string \<times> packed_feature) list"

text \<open>
  Modelled from the spec: the in-progress bin of the missing \<^verbatim>\<open>SingleBinPack\<close> iterator,
  as the number of source sequences it holds and its features.
\<close>

type_synonym bin = "nat \<times> packed_record"

definition empty_bin :: bin where
  "empty_bin = (0, [])"

definition feature_of :: "element \<Rightarrow> string \<Rightarrow> int list" where
  "feature_of e f = (case map_of e f of Some xs \<Rightarrow> xs | None \<Rightarrow> [])"

definition bin_feature :: "bin \<Rightarrow> string \<Rightarrow> packed_feature" where
  "bin_feature b f =
     (case map_of (snd b) f of
        Some p \<Rightarrow> p
      | None \<Rightarrow> \<lparr> pf_values = [], pf_segment_ids = [], pf_positions = [] \<rparr>)"

definition used :: "bin \<Rightarrow> string \<Rightarrow> nat" where
  "used b f = length (pf_values (bin_feature b f))"

text \<open>
  Modelled from the spec: step 1 of the missing packer, ``if E alone fills every feature
  exactly to its target length, yield E immediately as a fully-packed record (its source
  is the only segment, position = [0..T-1])''.
\<close>

definition fully_packed :: "length_struct \<Rightarrow> element \<Rightarrow> bool" where
  "fully_packed ls e = list_all (\<lambda>(f, t). length (feature_of e f) = t) ls"

definition whole_record :: "length_struct \<Rightarrow> element \<Rightarrow> packed_record" where
  "whole_record ls e =
     map (\<lambda>(f, t). (f, \<lparr> pf_values = feature_of e f,
                          pf_segment_ids = replicate t 1,
                          pf_positions = [0 ..< t] \<rparr>)) ls"

text \<open>
  Modelled from the spec: the fit test of step 2 of the missing packer, ``for each
  feature f, check that used_f + len_f(E) \<le> T_f''.
\<close>

definition fits :: "bin \<Rightarrow> element \<Rightarrow> string \<times> nat \<Rightarrow> bool" where
  "fits b e = (\<lambda>(f, t). used b f + length (feature_of e f) \<le> t)"

text \<open>
  Modelled from the spec: appending an element to the bin in the missing packer, ``append
  and record a new segment id'', with the truncation rule of step 5, ``each feature is
  independently truncated to its remaining capacity; the partially-copied element still
  gets a segment id in all features it contributes to (segment id omitted for a feature
  only when zero tokens were added)''. When a feature fits, nothing of it is cut.
\<close>

definition append_feature :: "nat \<Rightarrow> nat \<Rightarrow> packed_feature \<Rightarrow> int list \<Rightarrow> packed_feature" where
  "append_feature seg t p xs =
     (let ys = take (t - length (pf_values p)) xs
      in \<lparr> pf_values = pf_values p @ ys,
           pf_segment_ids = pf_segment_ids p @ replicate (length ys) seg,
           pf_positions = pf_positions p @ [0 ..< length ys] \<rparr>)"

definition append_element :: "length_struct \<Rightarrow> bin \<Rightarrow> element \<Rightarrow> bin" where
  "append_element ls b e =
     (fst b + 1,
      map (\<lambda>(f, t). (f, append_feature (fst b + 1) t (bin_feature b f) (feature_of e f))) ls)"

text \<open>
  Modelled from the spec: the output record of a bin of the missing packer, every feature
  ``tail-padded with 0'' to its target length, segment ids and positions 0 for padding.
\<close>

definition pad_feature :: "nat \<Rightarrow> packed_feature \<Rightarrow> packed_feature" where
  "pad_feature t p =
     \<lparr> pf_values = pf_values p @ replicate (t - length (pf_values p)) 0,
       pf_segment_ids = pf_segment_ids p @ replicate (t - length (pf_segment_ids p)) 0,
       pf_positions = pf_positions p @ replicate (t - length (pf_positions p)) 0 \<rparr>"

definition bin_record :: "length_struct \<Rightarrow> bin \<Rightarrow> packed_record" where
  "bin_record ls b = map (\<lambda>(f, t). (f, pad_feature t (bin_feature b f))) ls"

text \<open>
  Modelled from the spec: the algorithm of the missing single-bin packer over the
  elements of its input, steps 1 to 5 of section 4.E.1. An element that is full by itself
  is yielded at once. Otherwise, when every feature fits it is appended (step 2); when
  some features fit and others would overflow it is appended with each feature cut to
  the remaining capacity and the bin stays open (step 5); when no feature fits the bin
  is yielded and a new bin is started with the element (step 3), cut to the target
  lengths where it is longer (section 4.E.3). With no bin in progress the element starts
  one. At the end of the input the bin is flushed (step 4).
\<close>

fun pack_elements :: "length_struct \<Rightarrow> bin option \<Rightarrow> element list \<Rightarrow> packed_record list" where
  "pack_elements ls None [] = []"
| "pack_elements ls (Some b) [] = [bin_record ls b]"
| "pack_elements ls cur (e # es) =
     (if fully_packed ls e then whole_record ls e # pack_elements ls cur es
      else
        (case cur of
           None \<Rightarrow> pack_elements ls (Some (append_element ls empty_bin e)) es
         | Some b \<Rightarrow>
             if list_all (fits b e) ls then pack_elements ls (Some (append_element ls b e)) es
             else if list_ex (fits b e) ls
               then pack_elements ls (Some (append_element ls b e)) es
             else bin_record ls b # pack_elements ls (Some (append_element ls empty_bin e)) es))"

definition SingleBinPack :: "length_struct \<Rightarrow> element list \<Rightarrow> packed_record list" where
  "SingleBinPack ls es = pack_elements ls None es"

section \<open>State dictionaries as objects\<close>

text \<open>
  Whether \<^verbatim>\<open>get_state\<close> hands out a copy depends on which dictionary object it
  returns, so dictionaries live in a store: an address is an index into the list of the
  dictionaries allocated so far, and a reference is an address.
\<close>

type_synonym addr = nat

type_synonym heap = "(string \<rightharpoonup> int) list"

definition heap_alloc :: "heap \<Rightarrow> (string \<rightharpoonup> int) \<Rightarrow> addr \<times> heap" where
  "heap_alloc h d = (length h, h @ [d])"

definition heap_lookup :: "heap \<Rightarrow> addr \<Rightarrow> (string \<rightharpoonup> int) option" where
  "heap_lookup h a = (if a < length h then Some (h ! a) else None)"

text \<open>The caller's \<^verbatim>\<open>state[key] = value\<close> on the dictionary at an address.\<close>

definition dict_setitem :: "heap \<Rightarrow> addr \<Rightarrow> string \<Rightarrow> int \<Rightarrow> heap" where
  "dict_setitem h a key v = (if a < length h then h[a := (h ! a)(key \<mapsto> v)] else h)"

text \<open>
  \<^verbatim>\<open>PrefetchLazyDatasetIterator.get_state\<close> seen with the store: the dictionary display
  allocates a new object at every call.
\<close>

definition Prefetch_get_state_obj ::
  "'a PrefetchLazyDatasetIterator \<Rightarrow> heap \<Rightarrow> addr \<times> heap" where
  "Prefetch_get_state_obj it h = heap_alloc h (Prefetch_get_state it)"

section \<open>The thread prefetch iterator over an iter dataset: \<^verbatim>\<open>get_state\<close>\<close>

text \<open>
  An entry of the buffer is the tuple \<^verbatim>\<open>(element, state, err)\<close>; the element is the
  sentinel of the initial state or an element of the parent (\<^verbatim>\<open>None\<close> in an error
  tuple), the state a reference to a dictionary or \<^verbatim>\<open>None\<close>.
\<close>

datatype 'a slot = INITIAL_STATE_SENTINEL | Element "'a option"

type_synonym 'a queue_item = "'a slot \<times> addr option \<times> error option"

text \<open>
  The producer function handed to the work thread: not yet run (with its
  \<^verbatim>\<open>initial_state\<close> argument), inside its loop, or returned.
\<close>

datatype producer_task = Pending "addr option" | Looping | Returned

text \<open>
  The attributes read or written by \<^verbatim>\<open>get_state\<close> and the functions it calls. The
  parent iter dataset of the source is \<^verbatim>\<open>PrefetchLazyIterDataset\<close>, so the delegate
  \<^verbatim>\<open>_iterator\<close> is a \<^verbatim>\<open>PrefetchLazyDatasetIterator\<close>. \<open>tp_producer_running\<close> is \<open>None\<close>
  or the event with its flag; \<open>tp_producer\<close> is the task on the work queue.
\<close>

record 'a ThreadPrefetchLazyDatasetIterator =
  tp_iterator :: "'a PrefetchLazyDatasetIterator"
  tp_prefetch_buffer_size :: int
  tp_state :: "addr option"
  tp_closed :: bool
  tp_producer_running :: "bool option"
  tp_buffer :: "'a queue_item list option"
  tp_producer :: "producer_task option"

definition ThreadPrefetch_init ::
  "'a PrefetchLazyDatasetIterator \<Rightarrow> int \<Rightarrow> 'a ThreadPrefetchLazyDatasetIterator" where
  "ThreadPrefetch_init parent_iterator b =
     \<lparr> tp_iterator = parent_iterator,
       tp_prefetch_buffer_size = b,
       tp_state = None,
       tp_closed = False,
       tp_producer_running = None,
       tp_buffer = None,
       tp_producer = None \<rparr>"

text \<open>\<^verbatim>\<open>_start_producer(initial_state)\<close> and \<^verbatim>\<open>start_prefetch()\<close>.\<close>

definition start_producer ::
  "'a ThreadPrefetchLazyDatasetIterator \<Rightarrow> addr option \<Rightarrow>
     error + 'a ThreadPrefetchLazyDatasetIterator" where
  "start_producer it initial_state =
     (if tp_closed it then Inl ValueError
      else if tp_producer_running it \<noteq> None then Inl ValueError
      else Inr (it\<lparr>tp_state := initial_state,
                   tp_producer_running := Some True,
                   tp_buffer := Some [],
                   tp_producer := Some (Pending initial_state)\<rparr>))"

definition start_prefetch ::
  "'a ThreadPrefetchLazyDatasetIterator \<Rightarrow> error + 'a ThreadPrefetchLazyDatasetIterator" where
  "start_prefetch it =
     (if tp_closed it then Inl ValueError
      else if tp_producer_running it = None then start_producer it None
      else Inr it)"

text \<open>
  The producer runs on the work thread. It is modelled under the schedule in which it
  runs exactly when the consumer waits on the empty buffer, up to its next \<^verbatim>\<open>put\<close>; the
  entries it puts, and their order, are the same under every schedule. \<open>producer_loop\<close>
  is one pass of \<^verbatim>\<open>while running.is_set()\<close>, \<open>producer_step\<close> the function from where
  it stands. An exception is put as an error tuple and ends the function.
\<close>

definition put_item ::
  "'a ThreadPrefetchLazyDatasetIterator \<Rightarrow> 'a queue_item \<Rightarrow> 'a ThreadPrefetchLazyDatasetIterator" where
  "put_item it x =
     it\<lparr>tp_buffer := (case tp_buffer it of None \<Rightarrow> None | Some q \<Rightarrow> Some (q @ [x]))\<rparr>"

definition producer_loop ::
  "'a ThreadPrefetchLazyDatasetIterator \<Rightarrow> heap \<Rightarrow>
     ('a ThreadPrefetchLazyDatasetIterator \<times> heap) option" where
  "producer_loop it h =
     (if tp_producer_running it \<noteq> Some True then Some (it\<lparr>tp_producer := Some Returned\<rparr>, h)
      else
        (case Prefetch_next (tp_iterator it) of
           None \<Rightarrow> None
         | Some (Inl e, d) \<Rightarrow>
             Some (put_item (it\<lparr>tp_iterator := d, tp_producer := Some Returned\<rparr>)
                     (Element None, None, Some e), h)
         | Some (Inr x, d) \<Rightarrow>
             (let (a, h1) = Prefetch_get_state_obj d h
              in Some (put_item (it\<lparr>tp_iterator := d, tp_producer := Some Looping\<rparr>)
                         (Element x, Some a, None), h1))))"

definition producer_step ::
  "'a ThreadPrefetchLazyDatasetIterator \<Rightarrow> heap \<Rightarrow>
     ('a ThreadPrefetchLazyDatasetIterator \<times> heap) option" where
  "producer_step it h =
     (case tp_producer it of
        None \<Rightarrow> Some (it, h)
      | Some Returned \<Rightarrow> Some (it, h)
      | Some Looping \<Rightarrow> producer_loop it h
      | Some (Pending None) \<Rightarrow>
          (let (a, h1) = Prefetch_get_state_obj (tp_iterator it) h
           in Some (put_item (it\<lparr>tp_producer := Some Looping\<rparr>)
                      (INITIAL_STATE_SENTINEL, Some a, None), h1))
      | Some (Pending (Some a)) \<Rightarrow>
          (case heap_lookup h a of
             None \<Rightarrow> None
           | Some d \<Rightarrow>
               (case Prefetch_set_state (tp_iterator it) d of
                  Inl e \<Rightarrow>
                    Some (put_item (it\<lparr>tp_producer := Some Returned\<rparr>)
                            (Element None, None, Some e), h)
                | Inr d1 \<Rightarrow> producer_loop (it\<lparr>tp_iterator := d1\<rparr>) h)))"

text \<open>
  \<^verbatim>\<open>buffer.get()\<close>: the head of the buffer, after the producer has run when the buffer
  was empty. \<open>None\<close> is a call that waits for ever.
\<close>

definition buffer_get ::
  "'a ThreadPrefetchLazyDatasetIterator \<Rightarrow> heap \<Rightarrow>
     ('a queue_item \<times> 'a ThreadPrefetchLazyDatasetIterator \<times> heap) option" where
  "buffer_get it h =
     (case tp_buffer it of
        None \<Rightarrow> None
      | Some (x # q) \<Rightarrow> Some (x, it\<lparr>tp_buffer := Some q\<rparr>, h)
      | Some [] \<Rightarrow>
          (case producer_step it h of
             None \<Rightarrow> None
           | Some (it1, h1) \<Rightarrow>
               (case tp_buffer it1 of
                  Some (x # q) \<Rightarrow> Some (x, it1\<lparr>tp_buffer := Some q\<rparr>, h1)
                | _ \<Rightarrow> None)))"

text \<open>
  \<^verbatim>\<open>ThreadPrefetchLazyDatasetIterator.get_state\<close>. It returns \<^verbatim>\<open>self._state\<close>: a
  reference, not a copy.
\<close>

definition ThreadPrefetch_get_state ::
  "'a ThreadPrefetchLazyDatasetIterator \<Rightarrow> heap \<Rightarrow>
     ((error + addr) \<times> 'a ThreadPrefetchLazyDatasetIterator \<times> heap) option" where
  "ThreadPrefetch_get_state it h =
     (case start_prefetch it of
        Inl e \<Rightarrow> Some (Inl e, it, h)
      | Inr it1 \<Rightarrow>
          (case tp_state it1 of
             Some a \<Rightarrow> Some (Inr a, it1, h)
           | None \<Rightarrow>
               (if tp_buffer it1 = None then Some (Inl AssertionError, it1, h)
                else
                  (case buffer_get it1 h of
                     None \<Rightarrow> None
                   | Some ((val, state, err), it2, h2) \<Rightarrow>
                       (case err of
                          Some e \<Rightarrow> Some (Inl e, it2, h2)
                        | None \<Rightarrow>
                            if val \<noteq> INITIAL_STATE_SENTINEL then Some (Inl AssertionError, it2, h2)
                            else
                              (case state of
                                 None \<Rightarrow> Some (Inl AssertionError, it2, h2)
                               | Some a \<Rightarrow> Some (Inr a, it2\<lparr>tp_state := Some a\<rparr>, h2)))))))"

section \<open>Properties of the Range and Shard datasets\<close>

lemma div_minus_ceiling: "(d - 1) div t + 1 = - ((- d) div t)" if "0 < t" for d t :: int
proof -
  define q where "q = (d - 1) div t"
  define r where "r = (d - 1) mod t"
  have r: "0 \<le> r" "r < t" using that by (simp_all add: r_def)
  have d: "d - 1 = t * q + r" by (simp add: q_def r_def)
  have "- d = t * (- (q + 1)) + (t - 1 - r)"
    using d by (simp add: algebra_simps)
  moreover have "0 \<le> t - 1 - r" "t - 1 - r < t" using r by simp_all
  ultimately have "(- d) div t = - (q + 1)"
    by (rule int_div_pos_eq)
  then show ?thesis by (simp add: q_def)
qed

lemma range_count_ceiling:
  assumes "st \<noteq> 0" and "0 < range_count lo hi st"
  shows "range_count lo hi st = \<lceil>real_of_int (hi - lo) / real_of_int st\<rceil>"
proof (cases "0 < st")
  case True
  with assms have "lo < hi" by (auto simp: range_count_def split: if_splits)
  with True have "range_count lo hi st = - ((- (hi - lo)) div st)"
    using div_minus_ceiling [of st "hi - lo"] by (simp add: range_count_def)
  then show ?thesis by (simp only: ceiling_divide_eq_div)
next
  case False
  with assms have neg: "st < 0" and lt: "hi < lo"
    by (auto simp: range_count_def split: if_splits)
  then have "range_count lo hi st = - ((- (lo - hi)) div (- st))"
    using div_minus_ceiling [of "- st" "lo - hi"] by (simp add: range_count_def)
  also have "\<dots> = - ((hi - lo) div (- st))" by simp
  also have "\<dots> = - ((- (hi - lo)) div st)"
    by (simp only: div_minus_right)
  finally show ?thesis by (simp only: ceiling_divide_eq_div)
qed

lemma Range_len_Inr:
  "Range_len r = Inr n \<Longrightarrow> step r \<noteq> 0 \<and> n = range_count (start r) (stop r) (step r)"
  by (auto simp: Range_len_def Range_length_def len_range_def split: if_splits)

lemma Range_getitem_Inr:
  "Range_len r = Inr n \<Longrightarrow> n \<noteq> 0 \<Longrightarrow> Range_getitem r i = Inr (start r + (i mod n) * step r)"
  by (simp add: Range_len_def Range_getitem_def)

text \<open>
  Claim C6. A Range dataset built from \<open>(a, b, c)\<close> whose \<^verbatim>\<open>len\<close> is a positive number \<open>n\<close> has
  \<open>n\<close> equal to the ceiling of \<open>(b - a) / c\<close>, and its element at every index \<open>i \<ge> 0\<close> is
  \<open>a + (i mod n) * c\<close>: indices past the length wrap around.
\<close>

theorem C6_range_length_and_getitem:
  assumes "Range_len (Range_init a (Some b) c) = Inr n" and "0 < n"
  shows "n = \<lceil>real_of_int (b - a) / real_of_int c\<rceil> \<and>
         (\<forall>i\<ge>0. Range_getitem (Range_init a (Some b) c) i = Inr (a + (i mod n) * c))"
proof
  have "c \<noteq> 0" and "n = range_count a b c"
    using Range_len_Inr [OF assms(1)] by (simp_all add: Range_init_def)
  with assms(2) show "n = \<lceil>real_of_int (b - a) / real_of_int c\<rceil>"
    using range_count_ceiling [of c a b] by simp
  show "\<forall>i\<ge>0. Range_getitem (Range_init a (Some b) c) i = Inr (a + (i mod n) * c)"
    using Range_getitem_Inr [OF assms(1)] assms(2) by (simp add: Range_init_def)
qed

text \<open>
  The range from 2 below 12 in steps of 3 has four elements, and index 5 wraps to
  the second one.
\<close>

theorem C6_range_length_and_getitem_witness:
  "Range_len (Range_init 2 (Some 12) 3) = Inr 4 \<and>
   (4::int) = \<lceil>real_of_int (12 - 2) / real_of_int 3\<rceil> \<and>
   Range_getitem (Range_init 2 (Some 12) 3) 5 = Inr 5"
proof -
  have len: "Range_len (Range_init 2 (Some 12) 3) = Inr 4"
    by (simp add: Range_len_def Range_length_def Range_init_def len_range_def range_count_def
        sys_maxsize_def)
  from C6_range_length_and_getitem [OF len] show ?thesis
    using len by simp
qed

text \<open>
  Claim C7 as stated fails: the Range dataset with \<open>start = stop = 0\<close> has length 0, and
  reading its index 0 divides by that length.
\<close>

theorem C7_empty_range_counterexample:
  "Range_getitem (Range_init 0 (Some 0) 1) 0 = Inl ZeroDivisionError"
  by (simp add: Range_getitem_def Range_length_def Range_init_def len_range_def range_count_def
      sys_maxsize_def)

lemma Shard_getitem_Inr:
  assumes "py_len (Shard_len s) = Inr n" and "n \<noteq> 0"
    and "py_len (len_method (sh_parent s)) = Inr m"
  shows "Shard_getitem s i = getitem (sh_parent s) ((i div n) * m + i mod n + sh_start s)"
  using assms by (simp add: Shard_getitem_def)

lemma py_len_Inr: "py_len r = Inr n \<Longrightarrow> 0 \<le> n \<and> r = Inr n"
  by (auto simp: py_len_def split: sum.splits if_splits)

lemma Shard_init_Inr:
  "Shard_init p es opts = Inr s \<Longrightarrow>
     sh_parent s = p \<and> (\<exists>m. py_len (len_method p) = Inr m)"
  by (auto simp: Shard_init_def split: sum.splits)

text \<open>
  Claim C7, amended. Reading a non-negative index returns a value for a Range dataset whose
  \<^verbatim>\<open>len\<close> is positive, and for a Shard dataset of positive length and non-negative start
  whose parent returns a value at every non-negative index. A Range or Shard dataset of
  length 0 has no element to return: reading any index raises \<^verbatim>\<open>ZeroDivisionError\<close>.
\<close>

theorem C7_getitem_defined_when_nonempty:
  "(Range_len r = Inr n \<and> 0 < n \<and> 0 \<le> i \<longrightarrow> (\<exists>v. Range_getitem r i = Inr v)) \<and>
   (Shard_init p even_split opts = Inr s \<and> py_len (Shard_len s) = Inr k \<and> 0 < k \<and>
    0 \<le> sh_start s \<and> (\<forall>j\<ge>0. \<exists>v. getitem p j = Inr v) \<and> 0 \<le> i
      \<longrightarrow> (\<exists>v. Shard_getitem s i = Inr v)) \<and>
   (Range_len r0 = Inr 0 \<longrightarrow> Range_getitem r0 i = Inl ZeroDivisionError) \<and>
   (py_len (Shard_len s0) = Inr 0 \<longrightarrow> Shard_getitem s0 i = Inl ZeroDivisionError)"
proof (intro conjI impI)
  assume "Range_len r = Inr n \<and> 0 < n \<and> 0 \<le> i"
  then show "\<exists>v. Range_getitem r i = Inr v"
    using Range_getitem_Inr [of r n i] by simp
next
  assume a: "Shard_init p even_split opts = Inr s \<and> py_len (Shard_len s) = Inr k \<and> 0 < k \<and>
    0 \<le> sh_start s \<and> (\<forall>j\<ge>0. \<exists>v. getitem p j = Inr v) \<and> 0 \<le> i"
  then have "Shard_init p even_split opts = Inr s" by simp
  from Shard_init_Inr [OF this]
  obtain m where par: "sh_parent s = p" and m: "py_len (len_method p) = Inr m"
    by auto
  have "0 \<le> m" using py_len_Inr [OF m] by simp
  moreover have "0 \<le> i div k" "0 \<le> i mod k"
    using a by (simp_all add: pos_imp_zdiv_nonneg_iff)
  ultimately have "0 \<le> (i div k) * m + i mod k + sh_start s"
    using a by simp
  moreover have "Shard_getitem s i = getitem p ((i div k) * m + i mod k + sh_start s)"
    using Shard_getitem_Inr [of s k m i] a m par by simp
  ultimately show "\<exists>v. Shard_getitem s i = Inr v"
    using a by simp
next
  assume "Range_len r0 = Inr 0"
  then show "Range_getitem r0 i = Inl ZeroDivisionError"
    by (simp add: Range_len_def Range_getitem_def)
next
  assume "py_len (Shard_len s0) = Inr 0"
  then show "Shard_getitem s0 i = Inl ZeroDivisionError"
    by (simp add: Shard_getitem_def)
qed

lemma Range_0_10_len: "Range_len (Range_init 0 (Some 10) 1) = Inr 10"
  by (simp add: Range_len_def Range_length_def Range_init_def len_range_def range_count_def
        sys_maxsize_def)

text \<open>
  Index 5 of the range from 2 below 12 in steps of 3, index 4 of the shard \<open>[2, 5)\<close>
  of the range below 10, and index 7 of the empty range from 3 below 3.
\<close>

theorem C7_getitem_defined_when_nonempty_witness:
  "Range_len (Range_init 2 (Some 12) 3) = Inr 4 \<and>
   (\<exists>v. Range_getitem (Range_init 2 (Some 12) 3) 5 = Inr v) \<and>
   Shard_init (Range_dataset (Range_init 0 (Some 10) 1)) (\<lambda>n (u::unit). (2, 5)) ()
     = Inr \<lparr> sh_parent = Range_dataset (Range_init 0 (Some 10) 1), sh_start = 2, sh_end = 5 \<rparr> \<and>
   (\<exists>v. Shard_getitem
      \<lparr> sh_parent = Range_dataset (Range_init 0 (Some 10) 1), sh_start = 2, sh_end = 5 \<rparr> 4 = Inr v) \<and>
   Range_len (Range_init 3 (Some 3) 1) = Inr 0 \<and>
   Range_getitem (Range_init 3 (Some 3) 1) 7 = Inl ZeroDivisionError"
proof -
  let ?p = "Range_dataset (Range_init 0 (Some 10) 1)"
  let ?s = "\<lparr> sh_parent = ?p, sh_start = 2, sh_end = 5 \<rparr>"
  have len: "Range_len (Range_init 2 (Some 12) 3) = Inr 4"
    by (simp add: Range_len_def Range_length_def Range_init_def len_range_def range_count_def
        sys_maxsize_def)
  have init: "Shard_init ?p (\<lambda>n (u::unit). (2, 5)) () = Inr ?s"
    by (simp add: Shard_init_def Range_dataset_def Range_0_10_len py_len_def sys_maxsize_def)
  have slen: "py_len (Shard_len ?s) = Inr 3"
    by (simp add: Shard_len_def py_len_def sys_maxsize_def)
  have par: "\<forall>j\<ge>0. \<exists>v. getitem ?p j = Inr v"
    using Range_0_10_len by (simp add: Range_dataset_def Range_getitem_def Range_len_def)
  have "\<exists>v. Range_getitem (Range_init 2 (Some 12) 3) 5 = Inr v"
    using C7_getitem_defined_when_nonempty [THEN conjunct1, of "Range_init 2 (Some 12) 3" 4 5] len
    by simp
  moreover have "\<exists>v. Shard_getitem ?s 4 = Inr v"
    using C7_getitem_defined_when_nonempty
      [THEN conjunct2, THEN conjunct1, of ?p "\<lambda>n (u::unit). (2, 5)" "()" ?s 3 4]
      init slen par by simp
  moreover have empty: "Range_len (Range_init 3 (Some 3) 1) = Inr 0"
    by (simp add: Range_len_def Range_length_def Range_init_def len_range_def range_count_def
        sys_maxsize_def)
  moreover have "Range_getitem (Range_init 3 (Some 3) 1) 7 = Inl ZeroDivisionError"
    using C7_getitem_defined_when_nonempty
      [THEN conjunct2, THEN conjunct2, THEN conjunct1, of "Range_init 3 (Some 3) 1" 7] empty
    by simp
  ultimately show ?thesis using len init by simp
qed

text \<open>
  Claim C8 as stated fails: index \<open>-1\<close> of the range below 10 is not rejected; it is the
  last element.
\<close>

theorem C8_negative_index_counterexample:
  "Range_getitem (Range_init 0 (Some 10) 1) (- 1) = Inr 9"
  by (simp add: Range_getitem_def Range_length_def Range_init_def len_range_def range_count_def
      sys_maxsize_def)

text \<open>
  Claim C8, amended. No dataset of the source checks the sign of an index. For a negative
  index \<open>i\<close>, a Range dataset of positive length \<open>n\<close> returns the element \<open>start + (i mod n) * step\<close>
  with \<open>i mod n\<close> between \<open>0\<close> and \<open>n - 1\<close>, and a Shard dataset of positive length \<open>k\<close> over a
  parent of length \<open>m\<close> returns whatever the parent does at index
  \<open>(i div k) * m + i mod k + start\<close>.
\<close>

theorem C8_negative_index_wraps:
  "(Range_len r = Inr n \<and> 0 < n \<and> i < 0
      \<longrightarrow> Range_getitem r i = Inr (start r + (i mod n) * step r) \<and> 0 \<le> i mod n \<and> i mod n < n) \<and>
   (Shard_init p even_split opts = Inr s \<and> py_len (Shard_len s) = Inr k \<and> 0 < k \<and> i < 0
      \<longrightarrow> (\<exists>m. py_len (len_method p) = Inr m \<and>
             Shard_getitem s i = getitem p ((i div k) * m + i mod k + sh_start s)))"
proof (intro conjI impI)
  assume a: "Range_len r = Inr n \<and> 0 < n \<and> i < 0"
  then show "Range_getitem r i = Inr (start r + (i mod n) * step r)"
    using Range_getitem_Inr [of r n i] by simp
  from a show "0 \<le> i mod n" by simp
  from a show "i mod n < n" by simp
next
  assume a: "Shard_init p even_split opts = Inr s \<and> py_len (Shard_len s) = Inr k \<and> 0 < k \<and> i < 0"
  then have "Shard_init p even_split opts = Inr s" by simp
  from Shard_init_Inr [OF this]
  obtain m where par: "sh_parent s = p" and m: "py_len (len_method p) = Inr m"
    by auto
  then show "\<exists>m. py_len (len_method p) = Inr m \<and>
             Shard_getitem s i = getitem p ((i div k) * m + i mod k + sh_start s)"
    using Shard_getitem_Inr [of s k m i] a by auto
qed

text \<open>
  Index \<open>-3\<close> of the range below 10 is 7, and index \<open>-1\<close> of its shard \<open>[2, 5)\<close> reads the
  parent at \<open>-6\<close>, which is 4.
\<close>

theorem C8_negative_index_wraps_witness:
  "Range_len (Range_init 0 (Some 10) 1) = Inr 10 \<and>
   Range_getitem (Range_init 0 (Some 10) 1) (- 3) = Inr 7 \<and>
   Shard_getitem
      \<lparr> sh_parent = Range_dataset (Range_init 0 (Some 10) 1), sh_start = 2, sh_end = 5 \<rparr> (- 1)
     = Inr (Some 4)"
proof -
  let ?p = "Range_dataset (Range_init 0 (Some 10) 1)"
  let ?s = "\<lparr> sh_parent = ?p, sh_start = 2, sh_end = 5 \<rparr>"
  have init: "Shard_init ?p (\<lambda>n (u::unit). (2, 5)) () = Inr ?s"
    by (simp add: Shard_init_def Range_dataset_def Range_0_10_len py_len_def sys_maxsize_def)
  have slen: "py_len (Shard_len ?s) = Inr 3"
    by (simp add: Shard_len_def py_len_def sys_maxsize_def)
  have plen: "py_len (len_method ?p) = Inr 10"
    by (simp add: Range_dataset_def Range_0_10_len py_len_def sys_maxsize_def)
  have g: "getitem ?p (- 6) = Inr (Some 4)"
    using Range_0_10_len
    by (simp add: Range_dataset_def Range_getitem_def Range_len_def Range_init_def)
  have "Range_getitem (Range_init 0 (Some 10) 1) (- 3) = Inr 7"
    using C8_negative_index_wraps [THEN conjunct1, of "Range_init 0 (Some 10) 1" 10 "- 3"]
      Range_0_10_len
    by (simp add: Range_init_def)
  moreover have "Shard_getitem ?s (- 1) = Inr (Some 4)"
    using C8_negative_index_wraps
      [THEN conjunct2, of ?p "\<lambda>n (u::unit). (2, 5)" "()" ?s 3 "- 1"]
      init slen plen g by simp
  ultimately show ?thesis using Range_0_10_len by simp
qed

section \<open>Properties of the thread-pool prefetch iterator\<close>

lemma window_Cons: "n < l \<Longrightarrow> 0 < b \<Longrightarrow> window n b l = n # [n + 1 .. min (n + b) l - 1]"
  by (simp add: window_def upto_rec1)

lemma window_step_inside:
  "n + b < l \<Longrightarrow> 0 < b \<Longrightarrow> [n + 1 .. min (n + b) l - 1] @ [n + b] = window (n + 1) b l"
  by (simp add: window_def min_def upto_rec2)

lemma window_step_end:
  "\<not> n + b < l \<Longrightarrow> [n + 1 .. min (n + b) l - 1] = window (n + 1) b l"
  by (simp add: window_def min_def)

lemma window_succ_inside:
  "n + b < l \<Longrightarrow> 0 < b \<Longrightarrow> window n b l @ [n + b] = window n (b + 1) l"
  by (simp add: window_def min_def upto_rec2)

lemma window_succ_end:
  "\<not> n + b < l \<Longrightarrow> window n b l = window n (b + 1) l"
  by (simp add: window_def min_def)

lemma fetch_buffered_None:
  assumes "buffer it = None" "0 < buffer_size it" "next_index it < dataset_length it"
  shows "fetch_buffered it =
     (getitem (dataset it) (next_index it),
      it\<lparr>buffer := Some (map (submit (dataset it))
                         (window (next_index it + 1) (buffer_size it) (dataset_length it))),
         reads := reads it @ window (next_index it) (buffer_size it + 1) (dataset_length it)\<rparr>)"
proof -
  define rest where
    "rest = [next_index it + 1 .. min (next_index it + buffer_size it) (dataset_length it) - 1]"
  have w: "window (next_index it) (buffer_size it) (dataset_length it) = next_index it # rest"
    unfolding rest_def by (rule window_Cons [OF assms(3) assms(2)])
  show ?thesis
  proof (cases "next_index it + buffer_size it < dataset_length it")
    case True
    have "window (next_index it + 1) (buffer_size it) (dataset_length it)
            = rest @ [next_index it + buffer_size it]"
      unfolding rest_def by (rule window_step_inside [OF True assms(2), symmetric])
    moreover have "window (next_index it) (buffer_size it + 1) (dataset_length it)
            = (next_index it # rest) @ [next_index it + buffer_size it]"
      using window_succ_inside [OF True assms(2)] w by simp
    ultimately show ?thesis
      using assms(1) True by (simp add: fetch_buffered_def Let_def w submit_def)
  next
    case False
    have "window (next_index it + 1) (buffer_size it) (dataset_length it) = rest"
      unfolding rest_def by (rule window_step_end [OF False, symmetric])
    moreover have "window (next_index it) (buffer_size it + 1) (dataset_length it)
            = next_index it # rest"
      using window_succ_end [OF False] w by simp
    ultimately show ?thesis
      using assms(1) False by (simp add: fetch_buffered_def Let_def w submit_def)
  qed
qed

lemma fetch_buffered_Some:
  assumes "buffer it = Some (map (submit (dataset it))
                         (window (next_index it) (buffer_size it) (dataset_length it)))"
    and "0 < buffer_size it" "next_index it < dataset_length it"
  shows "fetch_buffered it =
     (getitem (dataset it) (next_index it),
      it\<lparr>buffer := Some (map (submit (dataset it))
                         (window (next_index it + 1) (buffer_size it) (dataset_length it))),
         reads := reads it @ (if next_index it + buffer_size it < dataset_length it
                 then [next_index it + buffer_size it] else [])\<rparr>)"
proof -
  define rest where
    "rest = [next_index it + 1 .. min (next_index it + buffer_size it) (dataset_length it) - 1]"
  have w: "window (next_index it) (buffer_size it) (dataset_length it) = next_index it # rest"
    unfolding rest_def by (rule window_Cons [OF assms(3) assms(2)])
  show ?thesis
  proof (cases "next_index it + buffer_size it < dataset_length it")
    case True
    have "window (next_index it + 1) (buffer_size it) (dataset_length it)
            = rest @ [next_index it + buffer_size it]"
      unfolding rest_def by (rule window_step_inside [OF True assms(2), symmetric])
    then show ?thesis
      using assms(1) True by (simp add: fetch_buffered_def Let_def w submit_def)
  next
    case False
    have "window (next_index it + 1) (buffer_size it) (dataset_length it) = rest"
      unfolding rest_def by (rule window_step_end [OF False, symmetric])
    then show ?thesis
      using assms(1) False by (simp add: fetch_buffered_def Let_def w submit_def)
  qed
qed

lemma fetch_in_sync:
  assumes "in_sync it" and "next_index it < dataset_length it"
  shows "fetch it =
     (getitem (dataset it) (next_index it),
      it\<lparr>buffer := (if 0 < buffer_size it
                     then Some (map (submit (dataset it))
                            (window (next_index it + 1) (buffer_size it) (dataset_length it)))
                     else buffer it),
         reads := reads it @ fetched it\<rparr>)"
proof (cases "0 < buffer_size it")
  case False
  then show ?thesis by (simp add: fetch_def fetched_def)
next
  case True
  show ?thesis
  proof (cases "buffer it = None")
    case None: True
    show ?thesis
      using fetch_buffered_None [OF None True assms(2)] True None
      by (simp add: fetch_def fetched_def)
  next
    case False
    with assms(1) True
    have b: "buffer it = Some (map (submit (dataset it))
                         (window (next_index it) (buffer_size it) (dataset_length it)))"
      by (simp add: in_sync_def)
    have "fetched it = (if next_index it + buffer_size it < dataset_length it
                 then [next_index it + buffer_size it] else [])"
      using True b by (simp add: fetched_def)
    then show ?thesis
      using fetch_buffered_Some [OF b True assms(2)] True
      by (simp add: fetch_def)
  qed
qed

lemma next_end:
  "next_index it = dataset_length it \<Longrightarrow> Prefetch_next it = Some (Inl StopIteration, it)"
  by (subst Prefetch_next.simps) simp

lemma next_unfold:
  assumes "in_sync it" and "next_index it < dataset_length it"
  shows "Prefetch_next it =
     (case getitem (dataset it) (next_index it) of
        Inl e \<Rightarrow> Some (Inl e, after_read it)
      | Inr x \<Rightarrow> if allow_nones it \<or> x \<noteq> None then Some (Inr x, advance it)
                 else Prefetch_next (advance it))"
  using assms(2) fetch_in_sync [OF assms]
  by (subst Prefetch_next.simps)
     (simp add: after_read_def advance_def Let_def split: sum.split)

lemma in_sync_advance:
  assumes "in_sync it" and "next_index it < dataset_length it"
  shows "in_sync (advance it)"
  using assms by (simp add: in_sync_def advance_def after_read_def)

lemma advance_fields [simp]:
  "dataset (advance it) = dataset it"
  "dataset_length (advance it) = dataset_length it"
  "buffer_size (advance it) = buffer_size it"
  "allow_nones (advance it) = allow_nones it"
  "next_index (advance it) = next_index it + 1"
  by (simp_all add: advance_def after_read_def)

lemma after_read_fields [simp]:
  "dataset (after_read it) = dataset it"
  "dataset_length (after_read it) = dataset_length it"
  "buffer_size (after_read it) = buffer_size it"
  "allow_nones (after_read it) = allow_nones it"
  "next_index (after_read it) = next_index it"
  by (simp_all add: after_read_def)

lemma remaining_end:
  "next_index it = dataset_length it \<Longrightarrow> remaining it = ([], StopIteration)"
  by (simp add: remaining_def)

lemma remaining_unfold:
  assumes "next_index it < dataset_length it"
  shows "remaining it =
     (case getitem (dataset it) (next_index it) of
        Inl e \<Rightarrow> ([], e)
      | Inr x \<Rightarrow>
          (if allow_nones it \<or> x \<noteq> None then x # fst (remaining (advance it))
           else fst (remaining (advance it)),
           snd (remaining (advance it))))"
proof -
  from assms obtain d where d: "nat (dataset_length it - next_index it) = Suc d"
    by (cases "nat (dataset_length it - next_index it)") auto
  then have "nat (dataset_length it - (next_index it + 1)) = d" by linarith
  with d show ?thesis by (simp add: remaining_def split: sum.split)
qed

lemma next_in_sync:
  assumes "in_sync it"
  shows "\<exists>res it'. Prefetch_next it = Some (res, it') \<and> same_config it it' \<and>
           (case res of
              Inr x \<Rightarrow> in_sync it' \<and> remaining it = (x # fst (remaining it'), snd (remaining it'))
            | Inl e \<Rightarrow> remaining it = ([], e))"
  using assms
proof (induction "nat (dataset_length it - next_index it)" arbitrary: it)
  case 0
  then have "next_index it = dataset_length it" by (simp add: in_sync_def)
  then show ?case
    by (simp add: next_end remaining_end same_config_def)
next
  case (Suc d)
  then have lt: "next_index it < dataset_length it" by linarith
  note unf = next_unfold [OF Suc.prems lt] remaining_unfold [OF lt]
  show ?case
  proof (cases "getitem (dataset it) (next_index it)")
    case (Inl e)
    then show ?thesis using unf by (simp add: same_config_def)
  next
    case (Inr x)
    show ?thesis
    proof (cases "allow_nones it \<or> x \<noteq> None")
      case True
      then show ?thesis
        using unf Inr in_sync_advance [OF Suc.prems lt] by (simp add: same_config_def)
    next
      case False
      have "d = nat (dataset_length (advance it) - next_index (advance it))"
        using Suc.hyps(2) by simp
      from Suc.hyps(1) [OF this in_sync_advance [OF Suc.prems lt]]
      obtain res it' where
        n: "Prefetch_next (advance it) = Some (res, it')" and
        c: "same_config (advance it) it'" and
        r: "(case res of
              Inr x \<Rightarrow> in_sync it' \<and>
                 remaining (advance it) = (x # fst (remaining it'), snd (remaining it'))
            | Inl e \<Rightarrow> remaining (advance it) = ([], e))"
        by blast
      have "Prefetch_next it = Some (res, it')" using unf(1) Inr False n by simp
      moreover have "same_config it it'" using c by (simp add: same_config_def)
      moreover have "remaining it = remaining (advance it)"
        using unf(2) Inr False by simp
      ultimately show ?thesis using r by (auto split: sum.splits)
    qed
  qed
qed

lemma consume_in_sync:
  assumes "in_sync it"
  shows "\<exists>it'. consume it = Some (fst (remaining it), snd (remaining it), it')"
  using assms
proof (induction "length (fst (remaining it))" arbitrary: it rule: less_induct)
  case less
  from next_in_sync [OF less.prems]
  obtain res it' where
    n: "Prefetch_next it = Some (res, it')" and
    r: "(case res of
          Inr x \<Rightarrow> in_sync it' \<and> remaining it = (x # fst (remaining it'), snd (remaining it'))
        | Inl e \<Rightarrow> remaining it = ([], e))"
    by blast
  show ?case
  proof (cases res)
    case (Inl e)
    then show ?thesis using n r by (subst consume.simps) simp
  next
    case (Inr x)
    with r have s: "in_sync it'"
      and rem: "remaining it = (x # fst (remaining it'), snd (remaining it'))" by simp_all
    then have "length (fst (remaining it')) < length (fst (remaining it))" by simp
    from less.hyps [OF this s]
    obtain it'' where "consume it' = Some (fst (remaining it'), snd (remaining it'), it'')"
      by blast
    then show ?thesis using n Inr rem by (subst consume.simps) simp
  qed
qed

lemma take_elements_in_sync:
  assumes "in_sync it" and "take_elements k it = Some (ys, itk)"
  shows "in_sync itk \<and> same_config it itk \<and>
         remaining it = (ys @ fst (remaining itk), snd (remaining itk))"
  using assms
proof (induction k arbitrary: it ys)
  case 0
  then show ?case by (simp add: same_config_def)
next
  case (Suc k)
  from next_in_sync [OF Suc.prems(1)]
  obtain res it' where
    n: "Prefetch_next it = Some (res, it')" and
    c: "same_config it it'" and
    r: "(case res of
          Inr x \<Rightarrow> in_sync it' \<and> remaining it = (x # fst (remaining it'), snd (remaining it'))
        | Inl e \<Rightarrow> remaining it = ([], e))"
    by blast
  from Suc.prems(2) n obtain x zs where
    res: "res = Inr x" and t: "take_elements k it' = Some (zs, itk)" and ys: "ys = x # zs"
    by (auto split: sum.splits option.splits)
  from r res have s: "in_sync it'"
    and rem: "remaining it = (x # fst (remaining it'), snd (remaining it'))" by simp_all
  from Suc.IH [OF s t] c rem ys show ?case by (simp add: same_config_def)
qed

lemma in_sync_init:
  "Prefetch_init ds opts allow = Inr it \<Longrightarrow> in_sync it"
  by (auto simp: Prefetch_init_def in_sync_def py_len_def split: sum.splits if_splits)

lemma init_fields:
  assumes "Prefetch_init ds opts allow = Inr it"
  shows "dataset it = ds" "py_len (len_method ds) = Inr (dataset_length it)"
    "allow_nones it = allow" "next_index it = 0" "buffer it = None" "reads it = []"
    "buffer_size it = prefetch_buffer_size opts"
  using assms by (auto simp: Prefetch_init_def split: sum.splits if_splits)










lemma remaining_restored:
  assumes "dataset a = dataset b" "allow_nones a = allow_nones b"
    "next_index a = next_index b" "dataset_length a = dataset_length b"
  shows "remaining a = remaining b"
  using assms by (simp add: remaining_def)

text \<open>
  Claim C1. Take an iterator over a map dataset, call \<^verbatim>\<open>next\<close> \<open>k\<close> times, each call
  delivering an element, and take its state. Setting this state on a new iterator over
  the same dataset (with any read options) succeeds, and consuming the restored iterator
  gives the same elements, ended by the same exception, as consuming the original from
  where it stands; the original delivers the first \<open>k\<close> elements followed by these.
\<close>

theorem C1_checkpoint_restore_same_suffix:
  assumes "Prefetch_init ds opts allow = Inr it0"
    and "take_elements k it0 = Some (ys, itk)"
    and "Prefetch_init ds opts' allow = Inr fresh"
  shows "\<exists>restored xs e a b c.
           Prefetch_set_state fresh (Prefetch_get_state itk) = Inr restored \<and>
           consume restored = Some (xs, e, a) \<and>
           consume itk = Some (xs, e, b) \<and>
           consume it0 = Some (ys @ xs, e, c)"
proof -
  note f0 = init_fields [OF assms(1)] and ff = init_fields [OF assms(3)]
  from take_elements_in_sync [OF in_sync_init [OF assms(1)] assms(2)]
  have sk: "in_sync itk" and ck: "same_config it0 itk"
    and r0: "remaining it0 = (ys @ fst (remaining itk), snd (remaining itk))"
    by simp_all
  define restored where
    "restored = (if 0 < buffer_size fresh
                 then fresh\<lparr>next_index := next_index itk, buffer := None\<rparr>
                 else fresh\<lparr>next_index := next_index itk\<rparr>)"
  have set: "Prefetch_set_state fresh (Prefetch_get_state itk) = Inr restored"
    by (simp add: Prefetch_set_state_def Prefetch_get_state_def restored_def)
  have len: "dataset_length fresh = dataset_length itk"
    using f0(2) ff(2) ck by (simp add: same_config_def)
  have sr: "in_sync restored"
    using sk len ff(5) by (simp add: in_sync_def restored_def)
  have "remaining restored = remaining itk"
    using len ck f0 ff by (intro remaining_restored) (simp_all add: restored_def same_config_def)
  with consume_in_sync [OF sr] consume_in_sync [OF sk]
    consume_in_sync [OF in_sync_init [OF assms(1)]] r0 set
  show ?thesis by auto
qed

text \<open>
  Claim C2. Over the same dataset, the iterator with a positive buffer size (and any
  thread count the pool accepts) and the iterator with buffer size 0 both run to an
  end, deliver the same elements in the same order and end with the same exception.
\<close>

theorem C2_prefetch_preserves_order:
  assumes "Prefetch_init ds optsB allow = Inr itB" and "0 < prefetch_buffer_size optsB"
    and "Prefetch_init ds opts0 allow = Inr it0" and "prefetch_buffer_size opts0 = 0"
  shows "\<exists>xs e a b. consume itB = Some (xs, e, a) \<and> consume it0 = Some (xs, e, b)"
proof -
  note fB = init_fields [OF assms(1)] and f0 = init_fields [OF assms(3)]
  have "remaining itB = remaining it0"
    using fB f0 by (intro remaining_restored) simp_all
  with consume_in_sync [OF in_sync_init [OF assms(1)]]
    consume_in_sync [OF in_sync_init [OF assms(3)]]
  show ?thesis by auto
qed

lemma fetch_allow_nones: "allow_nones (snd (fetch it)) = allow_nones it"
  by (simp add: fetch_def fetch_buffered_def Let_def split: option.splits list.splits)

lemma next_not_None:
  assumes "Prefetch_next it = Some y"
  shows "\<not> allow_nones it \<longrightarrow> fst y \<noteq> Inr None"
proof (rule Prefetch_next.raw_induct
    [where P = "\<lambda>it y. \<not> allow_nones it \<longrightarrow> fst y \<noteq> Inr None", OF _ assms], goal_cases)
  case (1 nxt it y)
  obtain r it1 where f: "fetch it = (r, it1)" by (cases "fetch it")
  then have a: "allow_nones it1 = allow_nones it"
    using fetch_allow_nones [of it] by simp
  show ?case
  proof (cases "next_index it = dataset_length it")
    case True
    with 1(2) show ?thesis by auto
  next
    case False
    show ?thesis
    proof (cases r)
      case (Inl e)
      with 1(2) False f show ?thesis by auto
    next
      case (Inr x)
      show ?thesis
      proof (cases "allow_nones it \<or> x \<noteq> None")
        case True
        with 1(2) False f Inr a show ?thesis by (auto simp: Let_def)
      next
        case no: False
        with 1(2) False f Inr a
        have "nxt (it1\<lparr>next_index := next_index it1 + 1\<rparr>) = Some y"
          by (simp add: Let_def)
        from 1(1) [OF this] a show ?thesis by simp
      qed
    qed
  qed
qed

lemma deliver_filter:
  "fst (deliver ds False n d) = filter (\<lambda>x. x \<noteq> None) (fst (deliver ds True n d)) \<and>
   snd (deliver ds False n d) = snd (deliver ds True n d)"
  by (induction d arbitrary: n) (auto split: sum.splits)

lemma deliver_takeWhile:
  "map Inr (fst (deliver ds True n d)) =
     takeWhile (\<lambda>r. \<not> isl r) (map (getitem ds) [n .. n + int d - 1])"
proof (induction d arbitrary: n)
  case 0
  then show ?case by simp
next
  case (Suc d)
  have "[n .. n + int (Suc d) - 1] = n # [n + 1 .. n + 1 + int d - 1]"
    by (simp add: upto_rec1)
  with Suc [of "n + 1"] show ?case by (simp split: sum.splits)
qed

text \<open>
  Claim C4. An iterator that does not allow \<^verbatim>\<open>None\<close>s never returns \<^verbatim>\<open>None\<close> from
  \<^verbatim>\<open>next\<close>, in whatever state it is. Consumed from the start, the iterator that allows
  \<^verbatim>\<open>None\<close>s delivers every element of the epoch in position, \<^verbatim>\<open>None\<close>s included, up to
  the first index at which the dataset raises; the iterator that does not allow them
  delivers the same sequence without the \<^verbatim>\<open>None\<close>s, and ends with the same exception.
\<close>

theorem C4_sparse_elements:
  assumes "Prefetch_init ds opts False = Inr itF" and "Prefetch_init ds opts True = Inr itT"
  shows "(\<forall>it x it'. \<not> allow_nones it \<and> Prefetch_next it = Some (Inr x, it') \<longrightarrow> x \<noteq> None) \<and>
         (\<exists>xsT xsF e a b.
            consume itT = Some (xsT, e, a) \<and> consume itF = Some (xsF, e, b) \<and>
            map Inr xsT =
              takeWhile (\<lambda>r. \<not> isl r) (map (getitem ds) [0 .. dataset_length itT - 1]) \<and>
            xsF = filter (\<lambda>x. x \<noteq> None) xsT)"
proof
  show "\<forall>it x it'. \<not> allow_nones it \<and> Prefetch_next it = Some (Inr x, it') \<longrightarrow> x \<noteq> None"
    using next_not_None by fastforce
  note fF = init_fields [OF assms(1)] and fT = init_fields [OF assms(2)]
  have l: "dataset_length itF = dataset_length itT" using fF(2) fT(2) by simp
  have nn: "0 \<le> dataset_length itT" using in_sync_init [OF assms(2)] by (simp add: in_sync_def)
  have rT: "remaining itT = deliver ds True 0 (nat (dataset_length itT))"
    using fT by (simp add: remaining_def)
  have rF: "remaining itF = deliver ds False 0 (nat (dataset_length itT))"
    using fF l by (simp add: remaining_def)
  have "map Inr (fst (remaining itT)) =
      takeWhile (\<lambda>r. \<not> isl r) (map (getitem ds) [0 .. dataset_length itT - 1])"
    using deliver_takeWhile [of ds 0 "nat (dataset_length itT)"] nn by (simp add: rT)
  moreover have "fst (remaining itF) = filter (\<lambda>x. x \<noteq> None) (fst (remaining itT))"
    "snd (remaining itF) = snd (remaining itT)"
    using deliver_filter [of ds 0 "nat (dataset_length itT)"] by (simp_all add: rT rF)
  ultimately show "\<exists>xsT xsF e a b.
            consume itT = Some (xsT, e, a) \<and> consume itF = Some (xsF, e, b) \<and>
            map Inr xsT =
              takeWhile (\<lambda>r. \<not> isl r) (map (getitem ds) [0 .. dataset_length itT - 1]) \<and>
            xsF = filter (\<lambda>x. x \<noteq> None) xsT"
    using consume_in_sync [OF in_sync_init [OF assms(1)]]
      consume_in_sync [OF in_sync_init [OF assms(2)]]
    by auto
qed



lemma example_init:
  "Prefetch_init sparse_example (example_options b) allow =
     Inr \<lparr> dataset = sparse_example, dataset_length = 5, next_index = 0, buffer = None,
           buffer_size = b, allow_nones = allow,
           executor = (if 0 < b then Some 2 else None), reads = [] \<rparr>"
  by (simp add: Prefetch_init_def sparse_example_def example_options_def py_len_def
      sys_maxsize_def)


text \<open>
  The sparse example, buffer size 2, interrupted after two elements and restored on an
  iterator without buffer.
\<close>

theorem C1_checkpoint_restore_same_suffix_witness:
  "\<exists>it0 itk fresh restored a b c.
     Prefetch_init sparse_example (example_options 2) False = Inr it0 \<and>
     take_elements 2 it0 = Some ([Some 0, Some 10], itk) \<and>
     Prefetch_init sparse_example (example_options 0) False = Inr fresh \<and>
     Prefetch_set_state fresh (Prefetch_get_state itk) = Inr restored \<and>
     consume restored = Some ([Some 40], StopIteration, a) \<and>
     consume itk = Some ([Some 40], StopIteration, b) \<and>
     consume it0 = Some ([Some 0, Some 10, Some 40], StopIteration, c)"
proof -
  let ?it0 = "\<lparr> dataset = sparse_example, dataset_length = 5, next_index = 0, buffer = None,
           buffer_size = 2, allow_nones = False, executor = Some 2, reads = [] \<rparr>"
  let ?fresh = "\<lparr> dataset = sparse_example, dataset_length = 5, next_index = 0, buffer = None,
           buffer_size = 0, allow_nones = False, executor = None, reads = [] \<rparr>"
  have i0: "Prefetch_init sparse_example (example_options 2) False = Inr ?it0"
    and i1: "Prefetch_init sparse_example (example_options 0) False = Inr ?fresh"
    by (simp_all add: example_init)
  have "map_option fst (take_elements 2 ?it0) = Some [Some 0, Some 10]"
    by code_simp
  then obtain itk where t: "take_elements 2 ?it0 = Some ([Some 0, Some 10], itk)"
    by auto
  have all: "map_option (\<lambda>(xs, e, _). (xs, e)) (consume ?it0)
               = Some ([Some 0, Some 10, Some 40], StopIteration)"
    by code_simp
  from C1_checkpoint_restore_same_suffix [OF i0 t i1] all i0 i1 t
  show ?thesis by auto
qed

text \<open>
  The sparse example with buffer size 3 and with buffer size 0.
\<close>

theorem C2_prefetch_preserves_order_witness:
  "\<exists>itB it0 a b.
     Prefetch_init sparse_example (example_options 3) True = Inr itB \<and>
     0 < prefetch_buffer_size (example_options 3) \<and>
     Prefetch_init sparse_example (example_options 0) True = Inr it0 \<and>
     prefetch_buffer_size (example_options 0) = 0 \<and>
     consume itB = Some ([Some 0, Some 10, None, None, Some 40], StopIteration, a) \<and>
     consume it0 = Some ([Some 0, Some 10, None, None, Some 40], StopIteration, b)"
proof -
  let ?itB = "\<lparr> dataset = sparse_example, dataset_length = 5, next_index = 0, buffer = None,
           buffer_size = 3, allow_nones = True, executor = Some 2, reads = [] \<rparr>"
  let ?it0 = "\<lparr> dataset = sparse_example, dataset_length = 5, next_index = 0, buffer = None,
           buffer_size = 0, allow_nones = True, executor = None, reads = [] \<rparr>"
  have iB: "Prefetch_init sparse_example (example_options 3) True = Inr ?itB"
    and i0: "Prefetch_init sparse_example (example_options 0) True = Inr ?it0"
    by (simp_all add: example_init)
  have b: "0 < prefetch_buffer_size (example_options 3)"
    "prefetch_buffer_size (example_options 0) = 0"
    by (simp_all add: example_options_def)
  have all: "map_option (\<lambda>(xs, e, _). (xs, e)) (consume ?it0)
               = Some ([Some 0, Some 10, None, None, Some 40], StopIteration)"
    by code_simp
  from C2_prefetch_preserves_order [OF iB b(1) i0 b(2)] all iB i0 b
  show ?thesis by auto
qed

text \<open>
  The sparse example with and without \<^verbatim>\<open>None\<close>s.
\<close>

theorem C4_sparse_elements_witness:
  "\<exists>itF itT a b.
     Prefetch_init sparse_example (example_options 2) False = Inr itF \<and>
     Prefetch_init sparse_example (example_options 2) True = Inr itT \<and>
     consume itT = Some ([Some 0, Some 10, None, None, Some 40], StopIteration, a) \<and>
     consume itF = Some ([Some 0, Some 10, Some 40], StopIteration, b)"
proof -
  let ?itF = "\<lparr> dataset = sparse_example, dataset_length = 5, next_index = 0, buffer = None,
           buffer_size = 2, allow_nones = False, executor = Some 2, reads = [] \<rparr>"
  let ?itT = "\<lparr> dataset = sparse_example, dataset_length = 5, next_index = 0, buffer = None,
           buffer_size = 2, allow_nones = True, executor = Some 2, reads = [] \<rparr>"
  have iF: "Prefetch_init sparse_example (example_options 2) False = Inr ?itF"
    and iT: "Prefetch_init sparse_example (example_options 2) True = Inr ?itT"
    by (simp_all add: example_init)
  have all: "map_option (\<lambda>(xs, e, _). (xs, e)) (consume ?itT)
               = Some ([Some 0, Some 10, None, None, Some 40], StopIteration)"
    by code_simp
  from C4_sparse_elements [OF iF iT] all iF iT
  show ?thesis by auto
qed


section \<open>Properties of the construction of the multi-process prefetch dataset\<close>

lemma contains_multiprocess_node:
  "contains_multiprocess d =
     (node_class d = MultiprocessPrefetch \<or> list_ex contains_multiprocess (parents d))"
  by (cases d) simp

lemma validate_parent_dataset_iff:
  "validate_parent_dataset to_check =
     (if list_ex contains_multiprocess to_check then Inl ValueError else Inr ())"
proof (induction to_check rule: validate_parent_dataset.induct)
  case 1
  then show ?case by simp
next
  case (2 d to_check)
  then show ?case
    using contains_multiprocess_node [of d] by auto
qed

text \<open>
  Claim C5. Constructing a \<^verbatim>\<open>MultiprocessPrefetchLazyIterDataset\<close> raises (a \<^verbatim>\<open>ValueError\<close>)
  exactly when \<^verbatim>\<open>num_workers\<close> is below 1 or the graph of the parent, followed through
  \<^verbatim>\<open>parents\<close>, contains a node of that class; otherwise it returns the new node over the
  parent.
\<close>

theorem C5_multiprocess_construction_fails_iff:
  "(\<exists>e. MultiprocessPrefetch_init parent opts = Inl e) =
     (num_workers opts < 1 \<or> contains_multiprocess parent) \<and>
   MultiprocessPrefetch_init parent opts =
     (if num_workers opts < 1 \<or> contains_multiprocess parent then Inl ValueError
      else Inr (Dataset MultiprocessPrefetch [parent], opts))"
  by (simp add: MultiprocessPrefetch_init_def validate_parent_dataset_iff)

text \<open>
  A parent graph that holds a multi-process prefetch node two levels down, a worker count
  of 0, and a construction that succeeds.
\<close>

theorem C5_multiprocess_construction_fails_iff_witness:
  "MultiprocessPrefetch_init
     (Dataset IterDataset [Dataset MultiprocessPrefetch [Dataset IterDataset [Dataset MapDataset []]]])
     \<lparr> num_workers = 2 \<rparr> = Inl ValueError \<and>
   MultiprocessPrefetch_init (Dataset IterDataset [Dataset MapDataset []]) \<lparr> num_workers = 0 \<rparr>
     = Inl ValueError \<and>
   MultiprocessPrefetch_init (Dataset IterDataset [Dataset MapDataset []]) \<lparr> num_workers = 1 \<rparr>
     = Inr (Dataset MultiprocessPrefetch [Dataset IterDataset [Dataset MapDataset []]],
            \<lparr> num_workers = 1 \<rparr>)"
  using C5_multiprocess_construction_fails_iff
    [of "Dataset IterDataset [Dataset MultiprocessPrefetch [Dataset IterDataset [Dataset MapDataset []]]]"
        "\<lparr> num_workers = 2 \<rparr>"]
    C5_multiprocess_construction_fails_iff
    [of "Dataset IterDataset [Dataset MapDataset []]" "\<lparr> num_workers = 0 \<rparr>"]
    C5_multiprocess_construction_fails_iff
    [of "Dataset IterDataset [Dataset MapDataset []]" "\<lparr> num_workers = 1 \<rparr>"]
  by simp

section \<open>Properties of the single-bin packer\<close>


lemma SingleBinPack_single_feature:
  "SingleBinPack [(''inputs'', 4)]
     [[(''inputs'', [1, 2, 3, 4])], [(''inputs'', [5, 6])], [(''inputs'', [11, 12, 13, 14])],
      [(''inputs'', [7])], [(''inputs'', [8])]] =
     [[(''inputs'', \<lparr> pf_values = [1, 2, 3, 4], pf_segment_ids = [1, 1, 1, 1],
                      pf_positions = [0, 1, 2, 3] \<rparr>)],
      [(''inputs'', \<lparr> pf_values = [11, 12, 13, 14], pf_segment_ids = [1, 1, 1, 1],
                      pf_positions = [0, 1, 2, 3] \<rparr>)],
      [(''inputs'', \<lparr> pf_values = [5, 6, 7, 8], pf_segment_ids = [1, 1, 2, 3],
                      pf_positions = [0, 1, 0, 0] \<rparr>)]]"
  by code_simp

lemma SingleBinPack_remainder_is_padded:
  "SingleBinPack [(''inputs'', 4)]
     [[(''inputs'', [1, 2, 3, 4])], [(''inputs'', [5, 6])], [(''inputs'', [11, 12, 13, 14])],
      [(''inputs'', [7])]] =
     [[(''inputs'', \<lparr> pf_values = [1, 2, 3, 4], pf_segment_ids = [1, 1, 1, 1],
                      pf_positions = [0, 1, 2, 3] \<rparr>)],
      [(''inputs'', \<lparr> pf_values = [11, 12, 13, 14], pf_segment_ids = [1, 1, 1, 1],
                      pf_positions = [0, 1, 2, 3] \<rparr>)],
      [(''inputs'', \<lparr> pf_values = [5, 6, 7, 0], pf_segment_ids = [1, 1, 2, 0],
                      pf_positions = [0, 1, 0, 0] \<rparr>)]]"
  by code_simp



section \<open>Properties of the state returned by get_state\<close>

lemma Prefetch_get_state_obj_fresh:
  assumes "Prefetch_get_state_obj it h = (a, h1)"
    and "Prefetch_get_state_obj it (dict_setitem h1 a key v) = (b, h2)"
  shows "b \<noteq> a \<and> heap_lookup h2 b = Some (Prefetch_get_state it)"
  using assms
  by (auto simp: Prefetch_get_state_obj_def heap_alloc_def dict_setitem_def heap_lookup_def
      nth_append)

text \<open>
  Claim C9 fails for the thread prefetch iterator. Over the range below 3, the first
  \<^verbatim>\<open>get_state\<close> returns a reference to a dictionary holding \<open>next_index = 0\<close>; after the
  caller stores 99 under \<open>next_index\<close> in it, the next \<^verbatim>\<open>get_state\<close> returns the same
  reference, and the state it reports holds 99.
\<close>

theorem C9_thread_prefetch_state_is_shared:
  "(case Prefetch_init (Range_dataset (Range_init 3 None 1))
           \<lparr> num_threads = 16, prefetch_buffer_size = 0 \<rparr> False of
      Inl e \<Rightarrow> False
    | Inr parent_iterator \<Rightarrow>
        (case ThreadPrefetch_get_state (ThreadPrefetch_init parent_iterator 1) [] of
           Some (Inr a, it1, h1) \<Rightarrow>
             map_option (\<lambda>d. d ''next_index'') (heap_lookup h1 a) = Some (Some 0) \<and>
             (case ThreadPrefetch_get_state it1 (dict_setitem h1 a ''next_index'' 99) of
                Some (Inr b, it2, h2) \<Rightarrow>
                  b = a \<and> map_option (\<lambda>d. d ''next_index'') (heap_lookup h2 b) = Some (Some 99)
              | _ \<Rightarrow> False)
         | _ \<Rightarrow> False))"
  by code_simp

end
